theory Spec2Isabelle
  imports Complex_Main
begin

section \<open>Settings, documents and the document store\<close>

text \<open>
  The settings object \<^verbatim>\<open>S\<close> comes from \<^verbatim>\<open>get_settings()\<close>; the fields the modelled code
  reads are kept. Embedding vectors and relevance scores are Python floats; they are
  modelled as reals, so rounding and NaN are outside the model.
\<close>

record settings =
  elastic_index :: string
  embed_dims :: int
  token_budget :: int
  system_preamble :: string

type_synonym vec = "real list"

text \<open>The \<^verbatim>\<open>properties\<close> of the index mapping built in \<^verbatim>\<open>ensure_index\<close>, in source order.\<close>

datatype field_type = Keyword | FullText | DenseVector int bool string | Date

definition index_mapping :: "settings \<Rightarrow> (string \<times> field_type) list" where
  "index_mapping S =
     [(''project_id'', Keyword),
      (''text'', FullText),
      (''chunk_id'', Keyword),
      (''tags'', Keyword),
      (''embedding'', DenseVector (embed_dims S) True ''cosine''),
      (''created_at'', Date)]"

text \<open>A stored document is the dict handed to \<^verbatim>\<open>es.index\<close>: keys with values, in order.\<close>

datatype jvalue = JStr string | JStrs "string list" | JVec vec

type_synonym document = "(string \<times> jvalue) list"

datatype es_error =
  ResourceAlreadyExists string
  | ApiError string
  | TransportError string
  | KeyError string

text \<open>
  The store: its collections (index name to mapping) and the documents written so far,
  each with its index and its store-assigned id. \<^verbatim>\<open>es.indices.exists\<close> looks the name up,
  \<^verbatim>\<open>es.indices.create\<close> fails with resource-already-exists on a name that is present, and
  \<^verbatim>\<open>es.index\<close> appends the document under a fresh id (creating a missing index with an
  empty mapping, as the store does by default).
\<close>

record es_state =
  indices :: "string \<rightharpoonup> (string \<times> field_type) list"
  stored :: "(string \<times> nat \<times> document) list"

definition indices_exists :: "es_state \<Rightarrow> string \<Rightarrow> bool" where
  "indices_exists es idx = (indices es idx \<noteq> None)"

definition indices_create ::
  "es_state \<Rightarrow> string \<Rightarrow> (string \<times> field_type) list \<Rightarrow> es_error + es_state" where
  "indices_create es idx m =
     (if indices es idx \<noteq> None then Inl (ResourceAlreadyExists idx)
      else Inr (es\<lparr>indices := (indices es)(idx \<mapsto> m)\<rparr>))"

definition es_index :: "es_state \<Rightarrow> string \<Rightarrow> document \<Rightarrow> es_state \<times> nat" where
  "es_index es idx doc =
     (let new_id = length (stored es);
          es1 = (if indices es idx = None then es\<lparr>indices := (indices es)(idx \<mapsto> [])\<rparr> else es)
      in (es1\<lparr>stored := stored es1 @ [(idx, new_id, doc)]\<rparr>, new_id))"

subsection \<open>ensure_index and upsert_chunk\<close>

definition ensure_index :: "settings \<Rightarrow> es_state \<Rightarrow> es_error + es_state" where
  "ensure_index S es =
     (if \<not> indices_exists es (elastic_index S)
      then indices_create es (elastic_index S) (index_mapping S)
      else Inr es)"

text \<open>
  The same two requests of \<^verbatim>\<open>ensure_index\<close>, with the requests of other clients
  (\<open>other\<close>, a change of the store) taking effect between the existence check and the
  creation: the check-then-act sequence under a concurrent caller.
\<close>

definition ensure_index_interleaved ::
  "(es_state \<Rightarrow> es_state) \<Rightarrow> settings \<Rightarrow> es_state \<Rightarrow> es_error + es_state" where
  "ensure_index_interleaved other S es =
     (if \<not> indices_exists es (elastic_index S)
      then indices_create (other es) (elastic_index S) (index_mapping S)
      else Inr (other es))"

definition chunk_doc :: "string \<Rightarrow> string \<Rightarrow> vec \<Rightarrow> string list option \<Rightarrow> document" where
  "chunk_doc project_id txt embedding tags =
     [(''project_id'', JStr project_id),
      (''text'', JStr txt),
      (''tags'', JStrs (case tags of None \<Rightarrow> [] | Some ts \<Rightarrow> ts)),
      (''embedding'', JVec embedding)]"

definition upsert_chunk ::
  "settings \<Rightarrow> es_state \<Rightarrow> string \<Rightarrow> string \<Rightarrow> vec \<Rightarrow> string list option
     \<Rightarrow> es_error + (es_state \<times> nat)" where
  "upsert_chunk S es project_id txt embedding tags =
     (case ensure_index S es of
        Inl e \<Rightarrow> Inl e
      | Inr es1 \<Rightarrow> Inr (es_index es1 (elastic_index S) (chunk_doc project_id txt embedding tags)))"

section \<open>Search requests\<close>

record match_clause =
  match_field :: string
  match_query :: string
  match_boost :: real
  match_fuzziness :: "string option"

record knn_clause =
  knn_field :: string
  knn_query_vector :: vec
  knn_k :: int
  knn_num_candidates :: int
  knn_boost :: "real option"

datatype clause = Term string string | Match match_clause | Knn knn_clause

record bool_query =
  bq_filter :: "clause list"
  bq_must :: "clause list"
  bq_should :: "clause list"
  bq_minimum_should_match :: "int option"

record rrf =
  rank_window_size :: int
  rank_constant :: int

record search_body =
  body_size :: int
  body_source :: "string list option"
  body_query :: bool_query
  body_rank :: "rrf option"

text \<open>The \<^verbatim>\<open>body\<close> of \<^verbatim>\<open>knn_search\<close>.\<close>

definition knn_search_body :: "string \<Rightarrow> vec \<Rightarrow> int \<Rightarrow> search_body" where
  "knn_search_body project_id query_vec k =
     \<lparr>body_size = k,
      body_source = None,
      body_query =
        \<lparr>bq_filter = [Term ''project_id'' project_id],
         bq_must =
           [Knn \<lparr>knn_field = ''embedding'', knn_query_vector = query_vec, knn_k = k,
                 knn_num_candidates = max 20 (k * 5), knn_boost = None\<rparr>],
         bq_should = [],
         bq_minimum_should_match = None\<rparr>,
      body_rank = None\<rparr>"

text \<open>The \<^verbatim>\<open>body\<close> of \<^verbatim>\<open>hybrid_search\<close>: lexical and vector clauses under native rank fusion.\<close>

definition hybrid_body :: "string \<Rightarrow> string \<Rightarrow> vec \<Rightarrow> int \<Rightarrow> search_body" where
  "hybrid_body project_id query_text query_vec k =
     \<lparr>body_size = max (k * 3) 15,
      body_source = Some [''text'', ''tags'', ''project_id''],
      body_query =
        \<lparr>bq_filter = [Term ''project_id'' project_id],
         bq_must = [],
         bq_should =
           [Match \<lparr>match_field = ''text'', match_query = query_text, match_boost = 2,
                   match_fuzziness = Some ''AUTO''\<rparr>,
            Knn \<lparr>knn_field = ''embedding'', knn_query_vector = query_vec,
                 knn_k = max (k * 3) 15, knn_num_candidates = max 60 (k * 10),
                 knn_boost = Some 1\<rparr>],
         bq_minimum_should_match = Some 1\<rparr>,
      body_rank = Some \<lparr>rank_window_size = max (k * 3) 15, rank_constant = 20\<rparr>\<rparr>"

text \<open>The \<^verbatim>\<open>fallback_body\<close> of \<^verbatim>\<open>hybrid_search\<close>.\<close>

definition fallback_body :: "string \<Rightarrow> string \<Rightarrow> vec \<Rightarrow> int \<Rightarrow> search_body" where
  "fallback_body project_id query_text query_vec k =
     \<lparr>body_size = max (k * 3) 15,
      body_source = None,
      body_query =
        \<lparr>bq_filter = [Term ''project_id'' project_id],
         bq_must = [],
         bq_should =
           [Match \<lparr>match_field = ''text'', match_query = query_text, match_boost = 2,
                   match_fuzziness = None\<rparr>,
            Knn \<lparr>knn_field = ''embedding'', knn_query_vector = query_vec,
                 knn_k = max (k * 3) 15, knn_num_candidates = max 60 (k * 10),
                 knn_boost = None\<rparr>],
         bq_minimum_should_match = Some 1\<rparr>,
      body_rank = None\<rparr>"

section \<open>Search\<close>

text \<open>
  A hit of the store's response: the project, the text and the tags of the stored chunk
  it stands for, and its \<^verbatim>\<open>_score\<close>. A response may lack its \<^verbatim>\<open>hits\<close> array (\<open>None\<close>).
  The query engine of the store is a collaborator outside the repository: it is the
  parameter \<open>eng\<close>, from the store, the index name and the request body to an exception
  or a response.
\<close>

record raw_hit =
  hit_project_id :: string
  hit_text :: string
  hit_tags :: "string list"
  hit_score :: real

type_synonym response = "raw_hit list option"

type_synonym engine = "es_state \<Rightarrow> string \<Rightarrow> search_body \<Rightarrow> es_error + response"

record search_result =
  res_text :: string
  res_score :: real

definition to_result :: "raw_hit \<Rightarrow> search_result" where
  "to_result h = \<lparr>res_text = hit_text h, res_score = hit_score h\<rparr>"

definition knn_search ::
  "settings \<Rightarrow> engine \<Rightarrow> es_state \<Rightarrow> string \<Rightarrow> vec \<Rightarrow> int
     \<Rightarrow> es_state \<times> search_body list \<times> (es_error + search_result list)" where
  "knn_search S eng es project_id query_vec k =
     (case ensure_index S es of
        Inl e \<Rightarrow> (es, [], Inl e)
      | Inr es1 \<Rightarrow>
          (let body = knn_search_body project_id query_vec k in
           case eng es1 (elastic_index S) body of
             Inl e \<Rightarrow> (es1, [body], Inl e)
           | Inr None \<Rightarrow> (es1, [body], Inl (KeyError ''hits''))
           | Inr (Some hs) \<Rightarrow> (es1, [body], Inr (map to_result hs))))"

text \<open>
  \<^verbatim>\<open>hybrid_search\<close>: the store after the call, the search requests issued in order, and
  the exception raised or the results returned. The two debug prints have no effect on
  either.
\<close>

text \<open>The local \<^verbatim>\<open>hits\<close> of \<^verbatim>\<open>hybrid_search\<close>: the hits of a response, none when it has no array.\<close>

definition response_hits :: "response \<Rightarrow> raw_hit list" where
  "response_hits res = (case res of None \<Rightarrow> [] | Some hs \<Rightarrow> hs)"

definition extract_results :: "response \<Rightarrow> search_result list" where
  "extract_results res = map to_result (case res of None \<Rightarrow> [] | Some hs \<Rightarrow> hs)"

definition hybrid_search ::
  "settings \<Rightarrow> engine \<Rightarrow> es_state \<Rightarrow> string \<Rightarrow> string \<Rightarrow> vec \<Rightarrow> int
     \<Rightarrow> es_state \<times> search_body list \<times> (es_error + search_result list)" where
  "hybrid_search S eng es project_id query_text query_vec k =
     (case ensure_index S es of
        Inl e \<Rightarrow> (es, [], Inl e)
      | Inr es1 \<Rightarrow>
          (let body = hybrid_body project_id query_text query_vec k in
           case eng es1 (elastic_index S) body of
             Inr res \<Rightarrow> (es1, [body], Inr (extract_results res))
           | Inl e \<Rightarrow>
               (let fb = fallback_body project_id query_text query_vec k in
                case eng es1 (elastic_index S) fb of
                  Inl e' \<Rightarrow> (es1, [body, fb], Inl e')
                | Inr res \<Rightarrow> (es1, [body, fb], Inr (extract_results res)))))"

subsection \<open>What the store is relied on for\<close>

text \<open>
  The three properties of the store's query engine that the search results depend on:
  a hit satisfies every \<^verbatim>\<open>term\<close> filter on \<^verbatim>\<open>project_id\<close> of the request, a response holds
  at most \<^verbatim>\<open>size\<close> hits, and hits come in non-increasing score order.
\<close>

fun term_values :: "string \<Rightarrow> clause list \<Rightarrow> string list" where
  "term_values f [] = []"
| "term_values f (Term g v # cs) = (if g = f then v # term_values f cs else term_values f cs)"
| "term_values f (c # cs) = term_values f cs"

definition honours_filter :: "engine \<Rightarrow> bool" where
  "honours_filter eng =
     (\<forall>es idx b hs. eng es idx b = Inr (Some hs) \<longrightarrow>
        (\<forall>h \<in> set hs. \<forall>p \<in> set (term_values ''project_id'' (bq_filter (body_query b))).
           hit_project_id h = p))"

definition honours_size :: "engine \<Rightarrow> bool" where
  "honours_size eng =
     (\<forall>es idx b hs. eng es idx b = Inr (Some hs) \<longrightarrow> int (length hs) \<le> max 0 (body_size b))"

definition ranks_descending :: "engine \<Rightarrow> bool" where
  "ranks_descending eng =
     (\<forall>es idx b hs. eng es idx b = Inr (Some hs) \<longrightarrow>
        sorted_wrt (\<lambda>a b. hit_score b \<le> hit_score a) hs)"

text \<open>
  A small engine with these properties, for running the search on concrete stores: it
  scores a stored chunk by the dot product of its embedding with the query vector of the
  request's knn clause, keeps the chunks of the index that pass the project filter, sorts
  them by descending score and cuts the list at \<^verbatim>\<open>size\<close>. Without \<open>fusion\<close> it rejects a
  request that carries a \<^verbatim>\<open>rank\<close> clause.
\<close>

definition dot :: "vec \<Rightarrow> vec \<Rightarrow> real" where
  "dot u v = sum_list (map2 (*) u v)"

definition doc_hit :: "vec \<Rightarrow> document \<Rightarrow> raw_hit" where
  "doc_hit qv doc =
     \<lparr>hit_project_id = (case map_of doc ''project_id'' of Some (JStr p) \<Rightarrow> p | _ \<Rightarrow> []),
      hit_text = (case map_of doc ''text'' of Some (JStr t) \<Rightarrow> t | _ \<Rightarrow> []),
      hit_tags = (case map_of doc ''tags'' of Some (JStrs ts) \<Rightarrow> ts | _ \<Rightarrow> []),
      hit_score = (case map_of doc ''embedding'' of Some (JVec e) \<Rightarrow> dot qv e | _ \<Rightarrow> 0)\<rparr>"

fun knn_vectors :: "clause list \<Rightarrow> vec list" where
  "knn_vectors [] = []"
| "knn_vectors (Knn c # cs) = knn_query_vector c # knn_vectors cs"
| "knn_vectors (c # cs) = knn_vectors cs"

definition body_vector :: "search_body \<Rightarrow> vec" where
  "body_vector b =
     (case knn_vectors (bq_must (body_query b) @ bq_should (body_query b)) of
        [] \<Rightarrow> [] | v # vs \<Rightarrow> v)"

definition simple_engine :: "bool \<Rightarrow> engine" where
  "simple_engine fusion es idx b =
     (if body_rank b \<noteq> None \<and> \<not> fusion then Inl (ApiError ''rank'')
      else Inr (Some (take (nat (body_size b))
             (sort_key (\<lambda>h. - hit_score h)
                (filter (\<lambda>h. list_all (\<lambda>p. hit_project_id h = p)
                                 (term_values ''project_id'' (bq_filter (body_query b))))
                   (map (\<lambda>(i, n, doc). doc_hit (body_vector b) doc)
                      (filter (\<lambda>(i, n, doc). i = idx) (stored es))))))))"

subsection \<open>The fallback request against the primary one\<close>

text \<open>
  The request the specification asks the fallback to be: the primary request with the
  rank-fusion stage removed and nothing else changed. \<open>plain_clause\<close> is what the fallback
  of the source drops besides: the fuzziness of the match clause and the boost of the
  knn clause.
\<close>

definition without_rank :: "search_body \<Rightarrow> search_body" where
  "without_rank b = b\<lparr>body_rank := None\<rparr>"

fun plain_clause :: "clause \<Rightarrow> clause" where
  "plain_clause (Match m) = Match (m\<lparr>match_fuzziness := None\<rparr>)"
| "plain_clause (Knn c) = Knn (c\<lparr>knn_boost := None\<rparr>)"
| "plain_clause c = c"

section \<open>Diversity reranking\<close>

text \<open>
  Modelled from the spec: \<^verbatim>\<open>mmr\<close> is imported from the module \<^verbatim>\<open>retriever\<close>, which is not among
  the source files. The definition follows section 4.3 of the specification: a selected
  list \<open>S\<close>, initially empty, and a remaining list \<open>R\<close> of all pool indices; each step moves
  to \<open>S\<close> the index of \<open>R\<close> that maximises
  \<open>lam * sim(query, i) - (1 - lam) * max {sim(i, j) | j in S}\<close> (the second term is 0 for
  the first pick), an equal score going to the lower pool index, until \<open>S\<close> has
  \<open>min(k, pool size)\<close> indices or \<open>R\<close> is empty. \<open>sim\<close> is the cosine similarity and \<open>lam\<close> the
  trade-off weight, a parameter. The pool is the list of candidate embeddings; the result
  is the list of selected pool indices in selection order, as the call site uses it.
\<close>

definition cosine_sim :: "vec \<Rightarrow> vec \<Rightarrow> real" where
  "cosine_sim u v = dot u v / (sqrt (dot u u) * sqrt (dot v v))"

fun max_sim :: "vec list \<Rightarrow> nat \<Rightarrow> nat list \<Rightarrow> real" where
  "max_sim vs i [] = 0"
| "max_sim vs i [j] = cosine_sim (vs ! i) (vs ! j)"
| "max_sim vs i (j # js) = max (cosine_sim (vs ! i) (vs ! j)) (max_sim vs i js)"

definition mmr_score :: "real \<Rightarrow> vec \<Rightarrow> vec list \<Rightarrow> nat list \<Rightarrow> nat \<Rightarrow> real" where
  "mmr_score lam q vs S i = lam * cosine_sim q (vs ! i) - (1 - lam) * max_sim vs i S"

text \<open>The first index of \<open>b # is\<close> at which \<open>f\<close> is greatest.\<close>

fun best_of :: "(nat \<Rightarrow> real) \<Rightarrow> nat \<Rightarrow> nat list \<Rightarrow> nat" where
  "best_of f b [] = b"
| "best_of f b (i # is) = (if f b < f i then best_of f i is else best_of f b is)"

fun mmr_loop :: "real \<Rightarrow> vec \<Rightarrow> vec list \<Rightarrow> nat \<Rightarrow> nat list \<Rightarrow> nat list \<Rightarrow> nat list" where
  "mmr_loop lam q vs 0 S R = S"
| "mmr_loop lam q vs (Suc n) S [] = S"
| "mmr_loop lam q vs (Suc n) S (r # rs) =
     (let i = best_of (mmr_score lam q vs S) r rs
      in mmr_loop lam q vs n (S @ [i]) (remove1 i (r # rs)))"

definition mmr :: "real \<Rightarrow> vec \<Rightarrow> string list \<Rightarrow> vec list \<Rightarrow> int \<Rightarrow> nat list" where
  "mmr lam q_vec docs doc_vecs k =
     mmr_loop lam q_vec doc_vecs (nat (min k (int (length doc_vecs)))) [] [0..<length doc_vecs]"

section \<open>Context assembly and the ask endpoint\<close>

definition nl :: string where
  "nl = [CHR 0x0A]"

text \<open>Python's \<^verbatim>\<open>sep.join(xs)\<close>.\<close>

fun join :: "string \<Rightarrow> string list \<Rightarrow> string" where
  "join sep [] = []"
| "join sep [x] = x"
| "join sep (x # xs) = x @ sep @ join sep xs"

text \<open>
  The budget loop of \<^verbatim>\<open>ask\<close>. \<^verbatim>\<open>approx_token_count\<close> is imported from the module \<^verbatim>\<open>utils\<close>,
  which is not among the source files; it is the parameter \<open>atc\<close>, a count for every
  string. The loop checks the parts joined by one newline and builds the context from
  the parts joined by two.
\<close>

fun assemble_loop :: "(string \<Rightarrow> nat) \<Rightarrow> int \<Rightarrow> string list \<Rightarrow> string list \<Rightarrow> string list" where
  "assemble_loop atc budget parts [] = parts"
| "assemble_loop atc budget parts (d # ds) =
     (if int (atc (join nl parts)) + int (atc d) < budget
      then assemble_loop atc budget (parts @ [d]) ds
      else parts)"

definition context_parts :: "(string \<Rightarrow> nat) \<Rightarrow> int \<Rightarrow> string list \<Rightarrow> string list" where
  "context_parts atc budget selected_docs = assemble_loop atc budget [] selected_docs"

definition assemble_context :: "(string \<Rightarrow> nat) \<Rightarrow> int \<Rightarrow> string list \<Rightarrow> string" where
  "assemble_context atc budget selected_docs =
     join (nl @ nl) (context_parts atc budget selected_docs)"

text \<open>
  Modelled from the spec: a length-based token heuristic (section 4.4 names one as the
  example of the approximation), four characters to a token. It is used to run the
  assembly on concrete inputs only; the theorems about the assembly hold for every
  heuristic.
\<close>

definition chars_div_4 :: "string \<Rightarrow> nat" where
  "chars_div_4 s = length s div 4"

text \<open>
  Modelled from the spec: the plainest length-based token heuristic, one token to a
  character. Like \<open>chars_div_4\<close> it only serves to run the assembly on concrete inputs.
\<close>

definition char_count :: "string \<Rightarrow> nat" where
  "char_count s = length s"

datatype app_error =
  EmbeddingError string
  | SearchError es_error
  | IndexError
  | HTTPException int string

record ask_request =
  req_project_id :: string
  req_query :: string
  req_k :: int

record ask_response =
  response :: string
  used_snippets :: nat
  tokens_estimate :: nat

text \<open>
  The collaborators of \<^verbatim>\<open>ask\<close>: the embedding and generation providers (an exception
  message or a value), the reranker \<^verbatim>\<open>mmr\<close> and the token heuristic of the two modules
  that are not among the source files, and the store's query engine.
\<close>

record collaborators =
  get_embedding :: "string \<Rightarrow> string + vec"
  generate_text :: "string \<Rightarrow> string + string"
  mmr_fn :: "vec \<Rightarrow> string list \<Rightarrow> vec list \<Rightarrow> int \<Rightarrow> nat list"
  approx_token_count :: "string \<Rightarrow> nat"
  search_engine :: engine

text \<open>\<^verbatim>\<open>[get_embedding(d) for d in docs]\<close>: the first exception ends the comprehension.\<close>

fun embed_all :: "(string \<Rightarrow> string + vec) \<Rightarrow> string list \<Rightarrow> string + vec list" where
  "embed_all emb [] = Inr []"
| "embed_all emb (d # ds) =
     (case emb d of
        Inl m \<Rightarrow> Inl m
      | Inr v \<Rightarrow> (case embed_all emb ds of Inl m \<Rightarrow> Inl m | Inr vs \<Rightarrow> Inr (v # vs)))"

text \<open>\<^verbatim>\<open>[docs[i] for i in sel_idx]\<close>: an index past the end raises.\<close>

definition select_docs :: "string list \<Rightarrow> nat list \<Rightarrow> app_error + string list" where
  "select_docs docs sel_idx =
     (if list_all (\<lambda>i. i < length docs) sel_idx then Inr (map ((!) docs) sel_idx)
      else Inl IndexError)"

text \<open>The local variables of \<^verbatim>\<open>ask\<close> when it reaches the prompt.\<close>

record ask_locals =
  loc_store :: es_state
  loc_q_vec :: vec
  loc_docs :: "string list"
  loc_selected_docs :: "string list"
  loc_used :: nat
  loc_context_parts :: "string list"
  loc_context :: string

definition ask_context ::
  "settings \<Rightarrow> collaborators \<Rightarrow> es_state \<Rightarrow> ask_request \<Rightarrow> app_error + ask_locals" where
  "ask_context S C es req =
     (case get_embedding C (req_query req) of
        Inl m \<Rightarrow> Inl (EmbeddingError m)
      | Inr q_vec \<Rightarrow>
          (case hybrid_search S (search_engine C) es (req_project_id req) (req_query req) q_vec
                  (max 15 (req_k req)) of
             (es1, reqs, Inl e) \<Rightarrow> Inl (SearchError e)
           | (es1, reqs, Inr hits) \<Rightarrow>
               (let docs = map res_text hits in
                if docs = [] then
                  Inr \<lparr>loc_store = es1, loc_q_vec = q_vec, loc_docs = docs,
                       loc_selected_docs = [], loc_used = 0, loc_context_parts = [],
                       loc_context = []\<rparr>
                else
                  (case embed_all (get_embedding C) docs of
                     Inl m \<Rightarrow> Inl (EmbeddingError m)
                   | Inr doc_vecs \<Rightarrow>
                       (let sel_idx = mmr_fn C q_vec docs doc_vecs (min 10 (int (length docs))) in
                        case select_docs docs sel_idx of
                          Inl e \<Rightarrow> Inl e
                        | Inr selected_docs \<Rightarrow>
                            (let used = length selected_docs;
                                 budget = token_budget S;
                                 parts = context_parts (approx_token_count C) budget selected_docs
                             in Inr \<lparr>loc_store = es1, loc_q_vec = q_vec, loc_docs = docs,
                                     loc_selected_docs = selected_docs, loc_used = used,
                                     loc_context_parts = parts,
                                     loc_context = join (nl @ nl) parts\<rparr>))))))"

definition build_prompt :: "settings \<Rightarrow> string \<Rightarrow> string \<Rightarrow> string" where
  "build_prompt S ctx query =
     nl @ system_preamble S @ nl @ nl
     @ ''You are MemoraAI, an assistant that remembers user facts across sessions.'' @ nl
     @ ''Below are pieces of information you've previously stored in your memory.'' @ nl
     @ ''Use *all relevant ones* to answer the question.'' @ nl @ nl
     @ ''Stored memory snippets:'' @ nl
     @ (if ctx \<noteq> [] then ctx else ''[No prior memory found yet]'') @ nl @ nl
     @ ''User question: '' @ query @ nl @ nl
     @ ''If multiple memories are relevant, combine them naturally.'' @ nl
     @ ''If something seems unrelated, ignore it politely.'' @ nl"

text \<open>Python's \<^verbatim>\<open>str.strip()\<close> on the ASCII whitespace characters.\<close>

definition is_space :: "char \<Rightarrow> bool" where
  "is_space c =
     (c \<in> set [CHR 0x20, CHR 0x09, CHR 0x0A, CHR 0x0B, CHR 0x0C, CHR 0x0D,
                CHR 0x1C, CHR 0x1D, CHR 0x1E, CHR 0x1F])"

definition strip :: "string \<Rightarrow> string" where
  "strip s = rev (dropWhile is_space (rev (dropWhile is_space s)))"

definition ask ::
  "settings \<Rightarrow> collaborators \<Rightarrow> es_state \<Rightarrow> ask_request \<Rightarrow> app_error + ask_response" where
  "ask S C es req =
     (case ask_context S C es req of
        Inl e \<Rightarrow> Inl e
      | Inr L \<Rightarrow>
          (let prompt = build_prompt S (loc_context L) (req_query req) in
           case generate_text C prompt of
             Inl m \<Rightarrow> Inl (HTTPException 500 (''Generation failed: '' @ m))
           | Inr t \<Rightarrow>
               Inr \<lparr>response = strip t, used_snippets = loc_used L,
                    tokens_estimate = approx_token_count C prompt\<rparr>))"

section \<open>Concrete settings, stores and collaborators\<close>

definition memora :: settings where
  "memora = \<lparr>elastic_index = ''memora'', embed_dims = 2, token_budget = 7, system_preamble = []\<rparr>"

definition empty_store :: es_state where
  "empty_store = \<lparr>indices = Map.empty, stored = []\<rparr>"

definition other_creates :: "string \<Rightarrow> es_state \<Rightarrow> es_state" where
  "other_creates idx es = es\<lparr>indices := (indices es)(idx \<mapsto> [])\<rparr>"

definition sample_store :: es_state where
  "sample_store =
     \<lparr>indices = [''memora'' \<mapsto> index_mapping memora],
      stored =
        [(''memora'', 0, chunk_doc ''u1'' ''Alice lives in Paris.'' [1, 0] None),
         (''memora'', 1, chunk_doc ''u2'' ''Bob lives in Rome.'' [1, 0] None),
         (''memora'', 2, chunk_doc ''u1'' ''Alice likes tea.'' [0, 1] (Some [''tea'']))]\<rparr>"

definition sample_embedding :: "string \<Rightarrow> string + vec" where
  "sample_embedding s =
     (if s = ''Where does Alice live?'' \<or> s = ''Alice lives in Paris.'' \<or> s = ''Bob lives in Rome.''
      then Inr [1, 0]
      else if s = ''Alice likes tea.'' then Inr [0, 1]
      else Inl ''no embedding'')"

definition sample_collaborators :: collaborators where
  "sample_collaborators =
     \<lparr>get_embedding = sample_embedding,
      generate_text = (\<lambda>prompt. Inr '' Alice lives in Paris. ''),
      mmr_fn = mmr (7 / 10),
      approx_token_count = chars_div_4,
      search_engine = simple_engine False\<rparr>"

definition sample_request :: ask_request where
  "sample_request = \<lparr>req_project_id = ''u1'', req_query = ''Where does Alice live?'', req_k = 3\<rparr>"

text \<open>
  An engine that ignores the filter of a request: whatever is asked, it answers with a
  chunk written under the project \<^verbatim>\<open>u2\<close>.
\<close>

definition leaking_engine :: engine where
  "leaking_engine es idx b =
     Inr (Some [\<lparr>hit_project_id = ''u2'', hit_text = ''Bob lives in Rome.'', hit_tags = [],
                 hit_score = 1\<rparr>])"

section \<open>Facts about the store and the sample data\<close>

lemma ensure_index_ok: "\<exists>es1. ensure_index S es = Inr es1"
  by (simp add: ensure_index_def indices_create_def indices_exists_def)

lemma simple_engine_filter: "honours_filter (simple_engine f)"
  by (auto simp add: honours_filter_def simple_engine_def list_all_iff split: if_splits
      dest!: in_set_takeD)

lemma simple_engine_size: "honours_size (simple_engine f)"
  by (auto simp add: honours_size_def simple_engine_def split: if_splits)

lemma sorted_wrt_take_prefix: "sorted_wrt P xs \<Longrightarrow> sorted_wrt P (take n xs)"
  by (metis append_take_drop_id sorted_wrt_append)

lemma sort_key_descending:
  "sorted_wrt (\<lambda>a b. hit_score b \<le> hit_score a) (sort_key (\<lambda>h. - hit_score h) xs)"
proof -
  have "sorted (map (\<lambda>h. - hit_score h) (sort_key (\<lambda>h. - hit_score h) xs))"
    by (rule sorted_sort_key)
  then show ?thesis by (simp add: sorted_map)
qed

lemma simple_engine_ranks: "ranks_descending (simple_engine f)"
  by (auto simp add: ranks_descending_def simple_engine_def sorted_wrt_take_prefix
      sort_key_descending split: if_splits)

lemma memora_index: "elastic_index memora = ''memora''"
  by (simp add: memora_def)

lemma sample_store_ensured: "ensure_index memora sample_store = Inr sample_store"
  by (simp add: ensure_index_def indices_exists_def sample_store_def memora_def)

lemma sample_primary_rejected:
  "simple_engine False es idx (hybrid_body p q v k) = Inl (ApiError ''rank'')"
  by (simp add: simple_engine_def hybrid_body_def)

lemma sample_fallback_u1:
  "simple_engine False sample_store ''memora'' (fallback_body ''u1'' q [1, 0] k) =
     Inr (Some (take (nat (max (k * 3) 15))
       [\<lparr>hit_project_id = ''u1'', hit_text = ''Alice lives in Paris.'', hit_tags = [],
          hit_score = 1\<rparr>,
        \<lparr>hit_project_id = ''u1'', hit_text = ''Alice likes tea.'', hit_tags = [''tea''],
          hit_score = 0\<rparr>]))"
  by (simp add: simple_engine_def fallback_body_def body_vector_def sample_store_def
      doc_hit_def chunk_doc_def dot_def)

lemma sample_hybrid_u1:
  "hybrid_search memora (simple_engine False) sample_store ''u1'' q [1, 0] 8 =
     (sample_store, [hybrid_body ''u1'' q [1, 0] 8, fallback_body ''u1'' q [1, 0] 8],
      Inr [\<lparr>res_text = ''Alice lives in Paris.'', res_score = 1\<rparr>,
           \<lparr>res_text = ''Alice likes tea.'', res_score = 0\<rparr>])"
  using sample_fallback_u1 [of q 8]
  by (simp add: hybrid_search_def sample_store_ensured sample_primary_rejected Let_def
      extract_results_def to_result_def memora_index)

lemma sample_knn_u1:
  "knn_search memora (simple_engine False) sample_store ''u1'' [1, 0] 8 =
     (sample_store, [knn_search_body ''u1'' [1, 0] 8],
      Inr [\<lparr>res_text = ''Alice lives in Paris.'', res_score = 1\<rparr>,
           \<lparr>res_text = ''Alice likes tea.'', res_score = 0\<rparr>])"
proof -
  have "simple_engine False sample_store ''memora'' (knn_search_body ''u1'' [1, 0] 8) =
     Inr (Some
       [\<lparr>hit_project_id = ''u1'', hit_text = ''Alice lives in Paris.'', hit_tags = [],
          hit_score = 1\<rparr>,
        \<lparr>hit_project_id = ''u1'', hit_text = ''Alice likes tea.'', hit_tags = [''tea''],
          hit_score = 0\<rparr>])"
    by (simp add: simple_engine_def knn_search_body_def body_vector_def sample_store_def
        doc_hit_def chunk_doc_def dot_def)
  then show ?thesis
    by (simp add: knn_search_def sample_store_ensured Let_def memora_index to_result_def)
qed

lemma sample_knn_response_u1:
  "simple_engine False sample_store ''memora'' (knn_search_body ''u1'' [1, 0] 8) =
     Inr (Some
       [\<lparr>hit_project_id = ''u1'', hit_text = ''Alice lives in Paris.'', hit_tags = [],
          hit_score = 1\<rparr>,
        \<lparr>hit_project_id = ''u1'', hit_text = ''Alice likes tea.'', hit_tags = [''tea''],
          hit_score = 0\<rparr>])"
  by (simp add: simple_engine_def knn_search_body_def body_vector_def sample_store_def
      doc_hit_def chunk_doc_def dot_def)

lemma hybrid_search_cases:
  assumes "hybrid_search S eng es p q v k = (es', reqs, Inr rs)"
  shows "\<exists>es1 b res. ensure_index S es = Inr es1
           \<and> b \<in> {hybrid_body p q v k, fallback_body p q v k}
           \<and> b \<in> set reqs \<and> set reqs \<subseteq> {hybrid_body p q v k, fallback_body p q v k}
           \<and> eng es1 (elastic_index S) b = Inr res \<and> rs = extract_results res"
  using assms
  by (auto simp add: hybrid_search_def Let_def split: sum.splits)

lemma knn_search_cases:
  assumes "knn_search S eng es p v k = (es', reqs, Inr rs)"
  shows "\<exists>es1 hs. ensure_index S es = Inr es1 \<and> reqs = [knn_search_body p v k]
           \<and> eng es1 (elastic_index S) (knn_search_body p v k) = Inr (Some hs)
           \<and> rs = map to_result hs"
  using assms
  by (auto simp add: knn_search_def Let_def split: sum.splits option.splits)

lemma body_filters:
  "term_values ''project_id'' (bq_filter (body_query (hybrid_body p q v k))) = [p]"
  "term_values ''project_id'' (bq_filter (body_query (fallback_body p q v k))) = [p]"
  "term_values ''project_id'' (bq_filter (body_query (knn_search_body p v k))) = [p]"
  by (simp_all add: hybrid_body_def fallback_body_def knn_search_body_def)

lemma hybrid_search_response:
  assumes "hybrid_search S eng es p q v k = (es', reqs, Inr rs)"
  shows "reqs \<noteq> [] \<and> last reqs \<in> {hybrid_body p q v k, fallback_body p q v k}
       \<and> (\<exists>res. eng es' (elastic_index S) (last reqs) = Inr res
                 \<and> rs = map to_result (response_hits res))"
  using assms
  by (auto simp add: hybrid_search_def Let_def extract_results_def response_hits_def
      split: sum.splits)

lemma knn_search_response:
  assumes "knn_search S eng es p v k = (es', reqs, Inr rs)"
  shows "reqs \<noteq> [] \<and> last reqs = knn_search_body p v k
       \<and> (\<exists>res. eng es' (elastic_index S) (last reqs) = Inr res
                 \<and> rs = map to_result (response_hits res))"
  using assms
  by (auto simp add: knn_search_def Let_def response_hits_def split: sum.splits option.splits)

lemma honoured_response:
  assumes "honours_filter eng" and "eng es idx b = Inr res"
    and "term_values ''project_id'' (bq_filter (body_query b)) = [p]"
  shows "\<forall>h \<in> set (response_hits res). hit_project_id h = p"
proof (cases res)
  case None
  then show ?thesis by (simp add: response_hits_def)
next
  case (Some hs)
  then have "\<forall>h \<in> set hs. hit_project_id h = p"
    using assms unfolding honours_filter_def by fastforce
  then show ?thesis using Some by (simp add: response_hits_def)
qed

section \<open>Tenant isolation of the searches\<close>

text \<open>
  Claim C1. For distinct project identifiers \<open>p1\<close> and \<open>p2\<close>, a search scoped to \<open>p1\<close>, by
  \<^verbatim>\<open>hybrid_search\<close> on its primary or its fallback path or by \<^verbatim>\<open>knn_search\<close>, returns no hit
  written under \<open>p2\<close>. Every request the search issues carries the filter
  \<^verbatim>\<open>term project_id = p1\<close> and nothing else in its filter. The results returned are the
  projection, hit by hit, of the hits in the store's own response to the last request
  issued, and, the store honouring the filters of a request, each of those hits stands
  for a chunk written under \<open>p1\<close>, none for a chunk written under \<open>p2\<close>.
\<close>

theorem search_project_isolation:
  assumes "honours_filter eng" and "p1 \<noteq> p2"
  shows "(\<forall>es' reqs rs. hybrid_search S eng es p1 q v k = (es', reqs, Inr rs) \<longrightarrow>
            (\<forall>b \<in> set reqs. bq_filter (body_query b) = [Term ''project_id'' p1]) \<and>
            (\<exists>res. reqs \<noteq> [] \<and> eng es' (elastic_index S) (last reqs) = Inr res
                  \<and> rs = map to_result (response_hits res)
                  \<and> (\<forall>h \<in> set (response_hits res).
                        hit_project_id h = p1 \<and> hit_project_id h \<noteq> p2)))
       \<and> (\<forall>es' reqs rs. knn_search S eng es p1 v k = (es', reqs, Inr rs) \<longrightarrow>
            (\<forall>b \<in> set reqs. bq_filter (body_query b) = [Term ''project_id'' p1]) \<and>
            (\<exists>res. reqs \<noteq> [] \<and> eng es' (elastic_index S) (last reqs) = Inr res
                  \<and> rs = map to_result (response_hits res)
                  \<and> (\<forall>h \<in> set (response_hits res).
                        hit_project_id h = p1 \<and> hit_project_id h \<noteq> p2)))"
proof (intro conjI allI impI)
  fix es' reqs rs
  assume h: "hybrid_search S eng es p1 q v k = (es', reqs, Inr rs)"
  from hybrid_search_cases [OF h] have
    sub: "set reqs \<subseteq> {hybrid_body p1 q v k, fallback_body p1 q v k}"
    by blast
  show "\<forall>b \<in> set reqs. bq_filter (body_query b) = [Term ''project_id'' p1]"
    using sub by (auto simp add: hybrid_body_def fallback_body_def)
  from hybrid_search_response [OF h] obtain res where
    ne: "reqs \<noteq> []"
    and b: "last reqs \<in> {hybrid_body p1 q v k, fallback_body p1 q v k}"
    and r: "eng es' (elastic_index S) (last reqs) = Inr res"
    and rs: "rs = map to_result (response_hits res)"
    by blast
  have f: "term_values ''project_id'' (bq_filter (body_query (last reqs))) = [p1]"
    using b body_filters by auto
  have "\<forall>h \<in> set (response_hits res). hit_project_id h = p1"
    by (rule honoured_response [OF assms(1) r f])
  then show "\<exists>res. reqs \<noteq> [] \<and> eng es' (elastic_index S) (last reqs) = Inr res
                  \<and> rs = map to_result (response_hits res)
                  \<and> (\<forall>h \<in> set (response_hits res).
                        hit_project_id h = p1 \<and> hit_project_id h \<noteq> p2)"
    using ne r rs assms(2) by auto
next
  fix es' reqs rs
  assume h: "knn_search S eng es p1 v k = (es', reqs, Inr rs)"
  from knn_search_response [OF h] obtain res where
    ne: "reqs \<noteq> []"
    and b: "last reqs = knn_search_body p1 v k"
    and r: "eng es' (elastic_index S) (last reqs) = Inr res"
    and rs: "rs = map to_result (response_hits res)"
    by blast
  from knn_search_cases [OF h] have reqs: "reqs = [knn_search_body p1 v k]"
    by blast
  show "\<forall>b \<in> set reqs. bq_filter (body_query b) = [Term ''project_id'' p1]"
    using reqs by (simp add: knn_search_body_def)
  have f: "term_values ''project_id'' (bq_filter (body_query (last reqs))) = [p1]"
    using b body_filters(3) by simp
  have "\<forall>h \<in> set (response_hits res). hit_project_id h = p1"
    by (rule honoured_response [OF assms(1) r f])
  then show "\<exists>res. reqs \<noteq> [] \<and> eng es' (elastic_index S) (last reqs) = Inr res
                  \<and> rs = map to_result (response_hits res)
                  \<and> (\<forall>h \<in> set (response_hits res).
                        hit_project_id h = p1 \<and> hit_project_id h \<noteq> p2)"
    using ne r rs assms(2) by auto
qed

theorem search_project_isolation_witness:
  "honours_filter (simple_engine False) \<and> ''u1'' \<noteq> ''u2''
   \<and> hybrid_search memora (simple_engine False) sample_store ''u1'' ''Alice'' [1, 0] 8 =
       (sample_store,
        [hybrid_body ''u1'' ''Alice'' [1, 0] 8, fallback_body ''u1'' ''Alice'' [1, 0] 8],
        Inr [\<lparr>res_text = ''Alice lives in Paris.'', res_score = 1\<rparr>,
             \<lparr>res_text = ''Alice likes tea.'', res_score = 0\<rparr>])
   \<and> knn_search memora (simple_engine False) sample_store ''u1'' [1, 0] 8 =
       (sample_store, [knn_search_body ''u1'' [1, 0] 8],
        Inr [\<lparr>res_text = ''Alice lives in Paris.'', res_score = 1\<rparr>,
             \<lparr>res_text = ''Alice likes tea.'', res_score = 0\<rparr>])
   \<and> list_all (\<lambda>b. bq_filter (body_query b) = [Term ''project_id'' ''u1''])
        [hybrid_body ''u1'' ''Alice'' [1, 0] 8, fallback_body ''u1'' ''Alice'' [1, 0] 8,
         knn_search_body ''u1'' [1, 0] 8]
   \<and> simple_engine False sample_store (elastic_index memora)
        (last [hybrid_body ''u1'' ''Alice'' [1, 0] 8, fallback_body ''u1'' ''Alice'' [1, 0] 8])
       = Inr (Some
           [\<lparr>hit_project_id = ''u1'', hit_text = ''Alice lives in Paris.'', hit_tags = [],
              hit_score = 1\<rparr>,
            \<lparr>hit_project_id = ''u1'', hit_text = ''Alice likes tea.'', hit_tags = [''tea''],
              hit_score = 0\<rparr>])
   \<and> simple_engine False sample_store (elastic_index memora)
        (last [knn_search_body ''u1'' [1, 0] 8])
       = Inr (Some
           [\<lparr>hit_project_id = ''u1'', hit_text = ''Alice lives in Paris.'', hit_tags = [],
              hit_score = 1\<rparr>,
            \<lparr>hit_project_id = ''u1'', hit_text = ''Alice likes tea.'', hit_tags = [''tea''],
              hit_score = 0\<rparr>])
   \<and> list_all (\<lambda>h. hit_project_id h = ''u1'' \<and> hit_project_id h \<noteq> ''u2'')
        (response_hits (Some
           [\<lparr>hit_project_id = ''u1'', hit_text = ''Alice lives in Paris.'', hit_tags = [],
              hit_score = 1\<rparr>,
            \<lparr>hit_project_id = ''u1'', hit_text = ''Alice likes tea.'', hit_tags = [''tea''],
              hit_score = 0\<rparr>]))"
proof -
  have ne: "''u1'' \<noteq> ''u2''" by simp
  note t = search_project_isolation [OF simple_engine_filter ne,
      where S = memora and es = sample_store and q = "''Alice''" and v = "[1, 0]" and k = 8]
  show ?thesis
    using t sample_hybrid_u1 [of "''Alice''"] sample_knn_u1 simple_engine_filter [of False]
      sample_fallback_u1 [of "''Alice''" 8] sample_knn_response_u1
    by (simp add: list_all_iff memora_index response_hits_def)
qed

text \<open>
  The hypothesis on the store carries the statement: against an engine that ignores the
  filter, the same search scoped to \<^verbatim>\<open>u1\<close> sends the same filtered request and returns the
  chunk written under \<^verbatim>\<open>u2\<close>.
\<close>

lemma leaking_engine_breaks_isolation:
  "\<not> honours_filter leaking_engine
   \<and> hybrid_search memora leaking_engine sample_store ''u1'' ''Alice'' [1, 0] 8 =
       (sample_store, [hybrid_body ''u1'' ''Alice'' [1, 0] 8],
        Inr [\<lparr>res_text = ''Bob lives in Rome.'', res_score = 1\<rparr>])
   \<and> bq_filter (body_query (hybrid_body ''u1'' ''Alice'' [1, 0] 8)) = [Term ''project_id'' ''u1'']
   \<and> leaking_engine sample_store (elastic_index memora) (hybrid_body ''u1'' ''Alice'' [1, 0] 8)
       = Inr (Some [\<lparr>hit_project_id = ''u2'', hit_text = ''Bob lives in Rome.'', hit_tags = [],
                     hit_score = 1\<rparr>])"
proof -
  have "\<not> honours_filter leaking_engine"
  proof
    assume a: "honours_filter leaking_engine"
    have "leaking_engine sample_store ''memora'' (knn_search_body ''u1'' [] 1)
            = Inr (Some [\<lparr>hit_project_id = ''u2'', hit_text = ''Bob lives in Rome.'',
                           hit_tags = [], hit_score = 1\<rparr>])"
      by (simp add: leaking_engine_def)
    from honoured_response [OF a this body_filters(3)]
    show False by (simp add: response_hits_def)
  qed
  then show ?thesis
    by (simp add: hybrid_search_def sample_store_ensured Let_def leaking_engine_def
        extract_results_def to_result_def hybrid_body_def)
qed

section \<open>The fallback of hybrid_search\<close>

text \<open>
  Claim C4. Whatever exception the primary fused search request raises, \<^verbatim>\<open>hybrid_search\<close>
  issues the fallback request next, and the outcome of the call is the outcome of the
  fallback request alone: its results, or the exception the fallback request itself
  raises. The exception of the primary request does not reach the caller.
\<close>

theorem hybrid_search_fallback:
  assumes "ensure_index S es = Inr es1"
    and "eng es1 (elastic_index S) (hybrid_body p q v k) = Inl e"
  shows "hybrid_search S eng es p q v k =
           (es1, [hybrid_body p q v k, fallback_body p q v k],
            (case eng es1 (elastic_index S) (fallback_body p q v k) of
               Inl e' \<Rightarrow> Inl e'
             | Inr res \<Rightarrow> Inr (extract_results res)))"
  using assms by (simp add: hybrid_search_def Let_def split: sum.splits)

theorem hybrid_search_fallback_witness:
  "ensure_index memora sample_store = Inr sample_store
   \<and> simple_engine False sample_store (elastic_index memora) (hybrid_body ''u1'' ''Alice'' [1, 0] 8)
       = Inl (ApiError ''rank'')
   \<and> hybrid_search memora (simple_engine False) sample_store ''u1'' ''Alice'' [1, 0] 8 =
       (sample_store,
        [hybrid_body ''u1'' ''Alice'' [1, 0] 8, fallback_body ''u1'' ''Alice'' [1, 0] 8],
        Inr [\<lparr>res_text = ''Alice lives in Paris.'', res_score = 1\<rparr>,
             \<lparr>res_text = ''Alice likes tea.'', res_score = 0\<rparr>])"
proof -
  have a: "ensure_index memora sample_store = Inr sample_store"
    by (rule sample_store_ensured)
  have b: "simple_engine False sample_store (elastic_index memora)
             (hybrid_body ''u1'' ''Alice'' [1, 0] 8) = Inl (ApiError ''rank'')"
    by (rule sample_primary_rejected)
  show ?thesis
    using hybrid_search_fallback [where eng = "simple_engine False", OF a b] a b
      sample_fallback_u1 [of "''Alice''" 8]
    by (simp add: memora_index extract_results_def to_result_def)
qed

text \<open>
  Claim C5, as the code has it. The fallback request keeps the size, the project filter,
  the query text and the boost 2 of the match clause, the vector, \<^verbatim>\<open>k\<close> and
  \<^verbatim>\<open>num_candidates\<close> of the knn clause and \<^verbatim>\<open>minimum_should_match\<close>; besides the rank-fusion
  stage it drops the fuzziness of the match clause, the boost of the knn clause and the
  \<^verbatim>\<open>_source\<close> selection. So it is the primary request without its rank stage, without its
  \<^verbatim>\<open>_source\<close> selection and with both should-clauses made plain.
\<close>

theorem fallback_body_relation:
  "fallback_body p q v k =
     (without_rank (hybrid_body p q v k))
       \<lparr>body_source := None,
        body_query := (body_query (hybrid_body p q v k))
           \<lparr>bq_should := map plain_clause (bq_should (body_query (hybrid_body p q v k)))\<rparr>\<rparr>
   \<and> body_size (fallback_body p q v k) = body_size (hybrid_body p q v k)
   \<and> bq_filter (body_query (fallback_body p q v k)) = bq_filter (body_query (hybrid_body p q v k))
   \<and> bq_filter (body_query (fallback_body p q v k)) = [Term ''project_id'' p]
   \<and> bq_minimum_should_match (body_query (fallback_body p q v k))
       = bq_minimum_should_match (body_query (hybrid_body p q v k))
   \<and> bq_should (body_query (hybrid_body p q v k)) =
       [Match \<lparr>match_field = ''text'', match_query = q, match_boost = 2,
               match_fuzziness = Some ''AUTO''\<rparr>,
        Knn \<lparr>knn_field = ''embedding'', knn_query_vector = v, knn_k = max (k * 3) 15,
             knn_num_candidates = max 60 (k * 10), knn_boost = Some 1\<rparr>]
   \<and> bq_should (body_query (fallback_body p q v k)) =
       [Match \<lparr>match_field = ''text'', match_query = q, match_boost = 2,
               match_fuzziness = None\<rparr>,
        Knn \<lparr>knn_field = ''embedding'', knn_query_vector = v, knn_k = max (k * 3) 15,
             knn_num_candidates = max 60 (k * 10), knn_boost = None\<rparr>]"
  by (simp add: fallback_body_def hybrid_body_def without_rank_def)

text \<open>
  The claim as the specification states it fails: the fallback request is not the
  primary request with only the rank stage removed, and its match clause has lost the
  fuzzy matching.
\<close>

theorem fallback_body_counterexample:
  "fallback_body ''u1'' ''Alice'' [1, 0] 8 \<noteq> without_rank (hybrid_body ''u1'' ''Alice'' [1, 0] 8)
   \<and> hd (bq_should (body_query (hybrid_body ''u1'' ''Alice'' [1, 0] 8)))
       = Match \<lparr>match_field = ''text'', match_query = ''Alice'', match_boost = 2,
                match_fuzziness = Some ''AUTO''\<rparr>
   \<and> hd (bq_should (body_query (fallback_body ''u1'' ''Alice'' [1, 0] 8)))
       = Match \<lparr>match_field = ''text'', match_query = ''Alice'', match_boost = 2,
                match_fuzziness = None\<rparr>"
  by (simp add: fallback_body_def hybrid_body_def without_rank_def)

section \<open>Size and order of the candidate pool\<close>

text \<open>
  Claim C6. For every project, query text, query vector and \<open>k\<close>, \<^verbatim>\<open>hybrid_search\<close> returns
  at most \<open>max(3k, 15)\<close> results, in non-increasing score order: both of its requests
  ask for that size, and the results are the hits of the store's response in the
  response's order, the store returning at most \<^verbatim>\<open>size\<close> hits by descending score.
\<close>

theorem hybrid_search_pool_bound:
  assumes "honours_size eng" and "ranks_descending eng"
    and "hybrid_search S eng es p q v k = (es', reqs, Inr rs)"
  shows "int (length rs) \<le> max (3 * k) 15
       \<and> sorted_wrt (\<lambda>a b. res_score b \<le> res_score a) rs"
proof -
  from hybrid_search_cases [OF assms(3)] obtain es1 b res where
    b: "b \<in> {hybrid_body p q v k, fallback_body p q v k}"
    and r: "eng es1 (elastic_index S) b = Inr res" and rs: "rs = extract_results res"
    by blast
  show ?thesis
  proof (cases res)
    case None
    then show ?thesis using rs by (simp add: extract_results_def)
  next
    case (Some hs)
    have sz: "body_size b = max (3 * k) 15"
      using b by (auto simp add: hybrid_body_def fallback_body_def mult.commute)
    have "int (length hs) \<le> max 0 (body_size b)"
      using assms(1) r Some unfolding honours_size_def by blast
    then have len: "int (length hs) \<le> max (3 * k) 15" using sz by simp
    have "sorted_wrt (\<lambda>a b. hit_score b \<le> hit_score a) hs"
      using assms(2) r Some unfolding ranks_descending_def by blast
    then have "sorted_wrt (\<lambda>a b. res_score b \<le> res_score a) (map to_result hs)"
      by (simp add: sorted_wrt_map to_result_def)
    then show ?thesis using len rs Some by (simp add: extract_results_def)
  qed
qed

theorem hybrid_search_pool_bound_witness:
  "honours_size (simple_engine False) \<and> ranks_descending (simple_engine False)
   \<and> hybrid_search memora (simple_engine False) sample_store ''u1'' ''Alice'' [1, 0] 8 =
       (sample_store,
        [hybrid_body ''u1'' ''Alice'' [1, 0] 8, fallback_body ''u1'' ''Alice'' [1, 0] 8],
        Inr [\<lparr>res_text = ''Alice lives in Paris.'', res_score = 1\<rparr>,
             \<lparr>res_text = ''Alice likes tea.'', res_score = 0\<rparr>])
   \<and> int (length [\<lparr>res_text = ''Alice lives in Paris.'', res_score = 1\<rparr>,
                   \<lparr>res_text = ''Alice likes tea.'', res_score = 0\<rparr>]) \<le> max (3 * 8) 15
   \<and> sorted_wrt (\<lambda>a b. res_score b \<le> res_score a)
        [\<lparr>res_text = ''Alice lives in Paris.'', res_score = 1\<rparr>,
         \<lparr>res_text = ''Alice likes tea.'', res_score = 0\<rparr>]"
  using hybrid_search_pool_bound [OF simple_engine_size simple_engine_ranks
      sample_hybrid_u1 [of "''Alice''"]]
    sample_hybrid_u1 [of "''Alice''"] simple_engine_size [of False] simple_engine_ranks [of False]
  by simp

section \<open>Schema provisioning and stored documents\<close>

text \<open>
  Claim C8, as the code has it. Two calls of \<^verbatim>\<open>ensure_index\<close> in sequence both return
  without an exception; the second changes nothing, and after them the store holds the
  collections it held before and the one named by the settings, once. The function
  checks for the index before it creates it and has no handler: when another client
  creates the index between the check and the creation, the already-exists failure of
  the creation is raised to the caller.
\<close>

theorem ensure_index_sequential_and_race:
  "(\<exists>es1. ensure_index S es = Inr es1 \<and> ensure_index S es1 = Inr es1
       \<and> dom (indices es1) = insert (elastic_index S) (dom (indices es))
       \<and> stored es1 = stored es)
   \<and> (\<not> indices_exists es (elastic_index S) \<and> indices_exists (other es) (elastic_index S)
        \<longrightarrow> ensure_index_interleaved other S es = Inl (ResourceAlreadyExists (elastic_index S)))
   \<and> ensure_index_interleaved (\<lambda>s. s) S es = ensure_index S es"
  by (auto simp add: ensure_index_def ensure_index_interleaved_def indices_create_def
      indices_exists_def)

theorem ensure_index_witness:
  "ensure_index memora empty_store
     = Inr \<lparr>indices = [''memora'' \<mapsto> index_mapping memora], stored = []\<rparr>
   \<and> ensure_index memora \<lparr>indices = [''memora'' \<mapsto> index_mapping memora], stored = []\<rparr>
       = Inr \<lparr>indices = [''memora'' \<mapsto> index_mapping memora], stored = []\<rparr>
   \<and> dom (indices \<lparr>indices = [''memora'' \<mapsto> index_mapping memora], stored = []\<rparr>) = {''memora''}
   \<and> \<not> indices_exists empty_store ''memora''
   \<and> indices_exists (other_creates ''memora'' empty_store) ''memora''
   \<and> ensure_index_interleaved (other_creates ''memora'') memora empty_store
       = Inl (ResourceAlreadyExists ''memora'')"
  using ensure_index_sequential_and_race [of memora empty_store "other_creates ''memora''"]
  by (simp add: ensure_index_def indices_create_def indices_exists_def empty_store_def
      memora_def other_creates_def)

text \<open>
  The claim as the specification states it fails in its last part: an already-exists
  failure on creation is not treated as success. Here the index is absent at the check
  and another client has created it before the creation request.
\<close>

theorem ensure_index_race_counterexample:
  "\<not> indices_exists empty_store (elastic_index memora)
   \<and> ensure_index_interleaved (other_creates ''memora'') memora empty_store
       = Inl (ResourceAlreadyExists ''memora'')"
  by (simp add: ensure_index_interleaved_def indices_create_def indices_exists_def
      empty_store_def memora_def other_creates_def)

lemma upsert_chunk_stores:
  "\<exists>es1. ensure_index S es = Inr es1 \<and>
     upsert_chunk S es p t e tags
       = Inr (es1\<lparr>stored := stored es @ [(elastic_index S, length (stored es), chunk_doc p t e tags)]\<rparr>,
              length (stored es))"
  by (auto simp add: upsert_chunk_def ensure_index_def indices_create_def indices_exists_def
      es_index_def Let_def)

text \<open>
  Claim C9 at a concrete chunk. \<^verbatim>\<open>upsert_chunk\<close> stores a document with the four keys
  \<^verbatim>\<open>project_id\<close>, \<^verbatim>\<open>text\<close>, \<^verbatim>\<open>tags\<close> and \<^verbatim>\<open>embedding\<close>; it has no \<^verbatim>\<open>created_at\<close>, a field that
  the index mapping of \<^verbatim>\<open>ensure_index\<close> declares as a date.
\<close>

theorem upsert_chunk_no_created_at:
  "map fst (chunk_doc ''u1'' ''Alice lives in Paris.'' [1, 0] None)
     = [''project_id'', ''text'', ''tags'', ''embedding'']
   \<and> map_of (chunk_doc ''u1'' ''Alice lives in Paris.'' [1, 0] None) ''created_at'' = None
   \<and> map_of (index_mapping memora) ''created_at'' = Some Date
   \<and> (case upsert_chunk memora empty_store ''u1'' ''Alice lives in Paris.'' [1, 0] None of
        Inl e \<Rightarrow> False
      | Inr (es2, new_id) \<Rightarrow>
          stored es2 = [(''memora'', new_id, chunk_doc ''u1'' ''Alice lives in Paris.'' [1, 0] None)])"
  by (simp add: upsert_chunk_def ensure_index_def indices_create_def indices_exists_def es_index_def
      Let_def chunk_doc_def index_mapping_def memora_def empty_store_def)

section \<open>The reranker\<close>

lemma best_of_mem: "best_of f b is \<in> set (b # is)"
  by (induction "is" arbitrary: b) auto

lemma best_of_max: "j \<in> set (b # is) \<Longrightarrow> f j \<le> f (best_of f b is)"
proof (induction "is" arbitrary: b j)
  case Nil
  then show ?case by simp
next
  case (Cons i "is")
  show ?case
  proof (cases "f b < f i")
    case True
    have "f i \<le> f (best_of f i is)" using Cons.IH [of i i] by simp
    then show ?thesis using Cons.IH [of j i] Cons.prems True by auto
  next
    case False
    have "f b \<le> f (best_of f b is)" using Cons.IH [of b b] by simp
    then show ?thesis using Cons.IH [of j b] Cons.prems False by auto
  qed
qed

lemma best_of_changed: "best_of f b is = b \<or> f b < f (best_of f b is)"
proof (induction "is" arbitrary: b)
  case Nil
  then show ?case by simp
next
  case (Cons i "is")
  show ?case
  proof (cases "f b < f i")
    case True
    have "f i \<le> f (best_of f i is)" using best_of_max [of i i "is" f] by simp
    then show ?thesis using True by simp
  next
    case False
    then show ?thesis using Cons.IH [of b] by simp
  qed
qed

text \<open>On an ascending list of indices, every index below the chosen one scores strictly less.\<close>

lemma best_of_first:
  "sorted (b # is) \<Longrightarrow> distinct (b # is) \<Longrightarrow> j \<in> set (b # is) \<Longrightarrow> j < best_of f b is
     \<Longrightarrow> f j < f (best_of f b is)"
proof (induction "is" arbitrary: b j)
  case Nil
  then show ?case by simp
next
  case (Cons i "is")
  show ?case
  proof (cases "f b < f i")
    case True
    then have eq: "best_of f b (i # is) = best_of f i is" by simp
    have s: "sorted (i # is)" "distinct (i # is)" using Cons.prems by auto
    show ?thesis
    proof (cases "j = b")
      case True
      have "f i \<le> f (best_of f i is)" using best_of_max [of i i "is" f] by simp
      then show ?thesis using \<open>f b < f i\<close> True eq by simp
    next
      case False
      then have "j \<in> set (i # is)" using Cons.prems by auto
      then show ?thesis using Cons.IH [OF s, of j] Cons.prems(4) eq by simp
    qed
  next
    case False
    then have eq: "best_of f b (i # is) = best_of f b is" by simp
    have s: "sorted (b # is)" "distinct (b # is)" using Cons.prems by auto
    show ?thesis
    proof (cases "j = i")
      case True
      have "b < i" using Cons.prems(1,2) by auto
      then have "best_of f b is \<noteq> b" using Cons.prems(4) eq True by auto
      then have "f b < f (best_of f b is)" using best_of_changed [of f b "is"] by simp
      then show ?thesis using False True eq by simp
    next
      case False
      then have "j \<in> set (b # is)" using Cons.prems by auto
      then show ?thesis using Cons.IH [OF s, of j] Cons.prems(4) eq by simp
    qed
  qed
qed

lemma best_of_first_pick:
  "0 < lam \<Longrightarrow>
     best_of (mmr_score lam q vs []) b is = best_of (\<lambda>i. cosine_sim q (vs ! i)) b is"
  by (induction "is" arbitrary: b) (auto simp add: mmr_score_def)

lemma mmr_loop_prefix: "\<exists>T. mmr_loop lam q vs n S R = S @ T"
proof (induction lam q vs n S R rule: mmr_loop.induct)
  case (3 lam q vs n S r rs)
  then show ?case by (auto simp add: Let_def)
qed simp_all

lemma mmr_loop_length:
  "length (mmr_loop lam q vs n S R) = length S + min n (length R)"
proof (induction lam q vs n S R rule: mmr_loop.induct)
  case (3 lam q vs n S r rs)
  have "best_of (mmr_score lam q vs S) r rs \<in> set (r # rs)" by (rule best_of_mem)
  then have "length (remove1 (best_of (mmr_score lam q vs S) r rs) (r # rs)) = length rs"
    by (metis length_remove1 length_Cons diff_Suc_1)
  then show ?case using 3 by (simp add: Let_def)
qed simp_all

lemma mmr_loop_set:
  "set (mmr_loop lam q vs n S R) \<subseteq> set S \<union> set R"
proof (induction lam q vs n S R rule: mmr_loop.induct)
  case (3 lam q vs n S r rs)
  let ?i = "best_of (mmr_score lam q vs S) r rs"
  have "?i \<in> set (r # rs)" by (rule best_of_mem)
  moreover have "set (remove1 ?i (r # rs)) \<subseteq> set (r # rs)" by (rule set_remove1_subset)
  ultimately show ?case using 3 by (auto simp add: Let_def)
qed simp_all

lemma mmr_loop_distinct:
  "distinct S \<Longrightarrow> distinct R \<Longrightarrow> set S \<inter> set R = {} \<Longrightarrow> distinct (mmr_loop lam q vs n S R)"
proof (induction lam q vs n S R rule: mmr_loop.induct)
  case (3 lam q vs n S r rs)
  let ?i = "best_of (mmr_score lam q vs S) r rs"
  have m: "?i \<in> set (r # rs)" by (rule best_of_mem)
  have a: "distinct (S @ [?i])" using 3(2,4) m by auto
  have b: "distinct (remove1 ?i (r # rs))" using 3(3) by (rule distinct_remove1)
  have c: "set (S @ [?i]) \<inter> set (remove1 ?i (r # rs)) = {}"
    using 3(3,4) m by auto
  show ?case using 3(1) [OF refl a b c] by (simp add: Let_def)
qed simp_all

lemma mmr_length_bound: "int (length (mmr lam q d v k)) \<le> max 0 k"
  by (simp add: mmr_def mmr_loop_length)

lemma mmr_first:
  assumes "doc_vecs \<noteq> []" and "1 \<le> k" and "0 < lam"
  shows "hd (mmr lam q docs doc_vecs k)
           = best_of (\<lambda>i. cosine_sim q (doc_vecs ! i)) 0 [1..<length doc_vecs]"
proof -
  have n: "0 < length doc_vecs" using assms(1) by simp
  then have "0 < nat (min k (int (length doc_vecs)))" using assms(2) by simp
  then obtain m where m: "nat (min k (int (length doc_vecs))) = Suc m"
    by (cases "nat (min k (int (length doc_vecs)))") auto
  have u: "[0..<length doc_vecs] = 0 # [1..<length doc_vecs]"
    using n by (simp add: upt_rec)
  let ?i = "best_of (mmr_score lam q doc_vecs []) 0 [1..<length doc_vecs]"
  obtain T where "mmr_loop lam q doc_vecs m ([] @ [?i]) (remove1 ?i (0 # [1..<length doc_vecs]))
      = ([] @ [?i]) @ T"
    using mmr_loop_prefix by blast
  then have "hd (mmr lam q docs doc_vecs k) = ?i"
    unfolding mmr_def m u by (simp add: Let_def)
  then show ?thesis using best_of_first_pick [OF assms(3)] by simp
qed

lemma sample_mmr:
  "mmr (7 / 10) [1, 0] ds [[0, 1], [1, 0], [1, 0]] 2 = [1, 2]"
  "mmr (3 / 10) [1, 0] ds [[0, 1], [1, 0], [1, 0]] 2 = [1, 0]"
  "mmr (7 / 10) [1, 0] ds [[0, 1], [1, 0], [1, 0]] 1 = [1]"
  by (simp_all add: mmr_def upt_rec numeral_2_eq_2 mmr_score_def cosine_sim_def dot_def Let_def)

lemma sample_mmr_two:
  "mmr (7 / 10) [1, 0] ds [[1, 0], [0, 1]] 2 = [0, 1]"
  by (simp add: mmr_def upt_rec numeral_2_eq_2 mmr_score_def cosine_sim_def dot_def Let_def)

text \<open>
  Claim C2. For a non-empty candidate pool and \<open>k \<ge> 1\<close>, with a positive trade-off weight,
  the output of the reranker repeats no pool index, holds only indices of the pool, and
  has exactly \<open>min(k, pool size)\<close> of them. Its first element is the candidate most similar
  to the query: no candidate has a greater similarity, and every candidate with a lower
  pool index has a strictly smaller one. For \<open>k = 1\<close> the output is that candidate alone.
\<close>

theorem mmr_selection:
  assumes "doc_vecs \<noteq> []" and "1 \<le> k" and "0 < lam"
  shows "distinct (mmr lam q docs doc_vecs k)
       \<and> int (length (mmr lam q docs doc_vecs k)) = min k (int (length doc_vecs))
       \<and> (\<forall>i \<in> set (mmr lam q docs doc_vecs k). i < length doc_vecs)
       \<and> (\<forall>j < length doc_vecs.
             cosine_sim q (doc_vecs ! j)
               \<le> cosine_sim q (doc_vecs ! hd (mmr lam q docs doc_vecs k)))
       \<and> (\<forall>j < hd (mmr lam q docs doc_vecs k).
             cosine_sim q (doc_vecs ! j)
               < cosine_sim q (doc_vecs ! hd (mmr lam q docs doc_vecs k)))
       \<and> (k = 1 \<longrightarrow> mmr lam q docs doc_vecs k = [hd (mmr lam q docs doc_vecs k)])"
proof -
  let ?n = "length doc_vecs"
  let ?f = "\<lambda>i. cosine_sim q (doc_vecs ! i)"
  let ?out = "mmr lam q docs doc_vecs k"
  have n: "0 < ?n" using assms(1) by simp
  have u: "[0..<?n] = 0 # [1..<?n]" using n by (simp add: upt_rec)
  have first: "hd ?out = best_of ?f 0 [1..<?n]" by (rule mmr_first [OF assms])
  have d: "distinct ?out"
    unfolding mmr_def by (rule mmr_loop_distinct) simp_all
  have len: "length ?out = min (nat (min k (int ?n))) ?n"
    unfolding mmr_def by (simp add: mmr_loop_length)
  then have l: "int (length ?out) = min k (int ?n)" using assms(2) by auto
  have s: "\<forall>i \<in> set ?out. i < ?n"
    using mmr_loop_set [of lam q doc_vecs "nat (min k (int ?n))" "[]" "[0..<?n]"]
    unfolding mmr_def by auto
  have srt: "sorted (0 # [1..<?n])" "distinct (0 # [1..<?n])"
    using u by (metis sorted_upt, metis distinct_upt)
  have mx: "\<forall>j < ?n. ?f j \<le> ?f (hd ?out)"
  proof (intro allI impI)
    fix j assume "j < ?n"
    then have "j \<in> set (0 # [1..<?n])" using u by (metis atLeast0LessThan lessThan_iff set_upt)
    then show "?f j \<le> ?f (hd ?out)" unfolding first by (rule best_of_max)
  qed
  have low: "\<forall>j < hd ?out. ?f j < ?f (hd ?out)"
  proof (intro allI impI)
    fix j assume j: "j < hd ?out"
    have "hd ?out \<in> set (0 # [1..<?n])" unfolding first by (rule best_of_mem)
    then have "hd ?out < ?n" using u by (metis atLeast0LessThan lessThan_iff set_upt)
    then have "j < ?n" using j by simp
    then have m: "j \<in> set (0 # [1..<?n])"
      using u by (metis atLeast0LessThan lessThan_iff set_upt)
    show "?f j < ?f (hd ?out)"
      using best_of_first [OF srt m, of ?f] j unfolding first by simp
  qed
  have one: "k = 1 \<longrightarrow> ?out = [hd ?out]"
  proof
    assume "k = 1"
    then have "int (length ?out) = 1" using l n by simp
    then have "length ?out = 1" by simp
    then show "?out = [hd ?out]" by (cases ?out) auto
  qed
  show ?thesis using d l s mx low one by blast
qed

theorem mmr_selection_witness:
  "[[0, 1], [1, 0], [1, 0]] \<noteq> ([] :: vec list) \<and> (1::int) \<le> 2 \<and> (0::real) < 7 / 10
   \<and> mmr (7 / 10) [1, 0] [''a'', ''b'', ''c''] [[0, 1], [1, 0], [1, 0]] 2 = [1, 2]
   \<and> distinct [1, 2 :: nat]
   \<and> int (length [1, 2 :: nat]) = min 2 (int (length [[0, 1], [1, 0], [1 :: real, 0]]))
   \<and> list_all (\<lambda>i. i < length [[0, 1], [1, 0], [1 :: real, 0]]) [1, 2]
   \<and> cosine_sim [1, 0] [0, 1] < cosine_sim [1, 0] [1, 0]
   \<and> list_all (\<lambda>v. cosine_sim [1, 0] v \<le> cosine_sim [1, 0] [1, 0]) [[0, 1], [1, 0], [1, 0]]"
  using mmr_selection [of "[[0, 1], [1, 0], [1, 0]]" 2 "7 / 10" "[1, 0]" "[''a'', ''b'', ''c'']"]
    sample_mmr(1) [of "[''a'', ''b'', ''c'']"]
  by (simp add: cosine_sim_def dot_def)

section \<open>Context assembly\<close>

lemma assemble_loop_prefix:
  "\<exists>n \<le> length ds. assemble_loop atc b ps ds = ps @ take n ds
     \<and> (\<forall>i < n. int (atc (join nl (ps @ take i ds))) + int (atc (ds ! i)) < b)
     \<and> (n < length ds \<longrightarrow> \<not> int (atc (join nl (ps @ take n ds))) + int (atc (ds ! n)) < b)"
proof (induction ds arbitrary: ps)
  case Nil
  then show ?case by simp
next
  case (Cons d ds)
  show ?case
  proof (cases "int (atc (join nl ps)) + int (atc d) < b")
    case True
    from Cons.IH [of "ps @ [d]"] obtain n where n: "n \<le> length ds"
      and eq: "assemble_loop atc b (ps @ [d]) ds = (ps @ [d]) @ take n ds"
      and ok: "\<forall>i < n. int (atc (join nl ((ps @ [d]) @ take i ds))) + int (atc (ds ! i)) < b"
      and stop: "n < length ds \<longrightarrow>
                   \<not> int (atc (join nl ((ps @ [d]) @ take n ds))) + int (atc (ds ! n)) < b"
      by blast
    have "\<forall>i < Suc n. int (atc (join nl (ps @ take i (d # ds)))) + int (atc ((d # ds) ! i)) < b"
    proof (intro allI impI)
      fix i assume "i < Suc n"
      then show "int (atc (join nl (ps @ take i (d # ds)))) + int (atc ((d # ds) ! i)) < b"
        using True ok by (cases i) auto
    qed
    then show ?thesis
      using n eq stop True by (intro exI [of _ "Suc n"]) auto
  next
    case False
    then show ?thesis by (intro exI [of _ 0]) auto
  qed
qed

lemma take_last_split:
  "0 < n \<Longrightarrow> n \<le> length xs \<Longrightarrow> take n xs = take (n - 1) xs @ [xs ! (n - 1)]"
  by (cases n) (auto simp add: take_Suc_conv_app_nth)

lemma context_parts_length: "length (context_parts atc budget sel) \<le> length sel"
  using assemble_loop_prefix [of sel atc budget "[]"] by (auto simp add: context_parts_def)

text \<open>
  What the budget loop does, for every token heuristic, selection and budget. The
  context is a prefix of the selection joined by blank lines, so items are only ever
  left out whole: an item is included when the count of the items before it, joined by
  single newlines, plus its own count is below the budget, and the loop stops at the
  first item for which it is not. If the count of the first item alone is not below the
  budget, the context is the empty string. The count of the context itself is below the
  budget when an item is included and the heuristic counts a blank-line join no higher
  than the single-newline join of all items but the last plus the last item.
\<close>

lemma context_assembly_shape:
  "(\<exists>n \<le> length sel.
       context_parts atc budget sel = take n sel
     \<and> assemble_context atc budget sel = join (nl @ nl) (take n sel)
     \<and> (\<forall>i < n. int (atc (join nl (take i sel))) + int (atc (sel ! i)) < budget)
     \<and> (n < length sel
          \<longrightarrow> \<not> int (atc (join nl (take n sel))) + int (atc (sel ! n)) < budget))
   \<and> (sel \<noteq> [] \<and> budget \<le> int (atc (hd sel)) \<longrightarrow> assemble_context atc budget sel = [])
   \<and> ((\<forall>ps d. atc (join (nl @ nl) (ps @ [d])) \<le> atc (join nl ps) + atc d)
        \<and> context_parts atc budget sel \<noteq> []
        \<longrightarrow> int (atc (assemble_context atc budget sel)) < budget)"
proof -
  from assemble_loop_prefix [of sel atc budget "[]"] obtain n where n: "n \<le> length sel"
    and eq: "assemble_loop atc budget [] sel = take n sel"
    and ok: "\<forall>i < n. int (atc (join nl (take i sel))) + int (atc (sel ! i)) < budget"
    and stop: "n < length sel
                 \<longrightarrow> \<not> int (atc (join nl (take n sel))) + int (atc (sel ! n)) < budget"
    by auto
  have whole: "\<exists>n \<le> length sel.
       context_parts atc budget sel = take n sel
     \<and> assemble_context atc budget sel = join (nl @ nl) (take n sel)
     \<and> (\<forall>i < n. int (atc (join nl (take i sel))) + int (atc (sel ! i)) < budget)
     \<and> (n < length sel
          \<longrightarrow> \<not> int (atc (join nl (take n sel))) + int (atc (sel ! n)) < budget)"
    using n eq ok stop by (auto simp add: context_parts_def assemble_context_def)
  have none: "assemble_context atc budget sel = []"
    if a: "sel \<noteq> [] \<and> budget \<le> int (atc (hd sel))"
  proof -
    from a obtain d ds where s: "sel = d # ds" by (cases sel) auto
    then have "\<not> int (atc (join nl [])) + int (atc d) < budget" using a by simp
    then show ?thesis using s by (simp add: assemble_context_def context_parts_def)
  qed
  have bound: "int (atc (assemble_context atc budget sel)) < budget"
    if a: "(\<forall>ps d. atc (join (nl @ nl) (ps @ [d])) \<le> atc (join nl ps) + atc d)
             \<and> context_parts atc budget sel \<noteq> []"
  proof -
    have pos: "0 < n" using a eq by (auto simp add: context_parts_def)
    have split: "take n sel = take (n - 1) sel @ [sel ! (n - 1)]"
      using pos n by (rule take_last_split)
    have "atc (join (nl @ nl) (take (n - 1) sel @ [sel ! (n - 1)]))
            \<le> atc (join nl (take (n - 1) sel)) + atc (sel ! (n - 1))"
      using a by blast
    moreover have "int (atc (join nl (take (n - 1) sel))) + int (atc (sel ! (n - 1))) < budget"
      using ok pos by simp
    ultimately have "int (atc (join (nl @ nl) (take n sel))) < budget"
      using split by simp
    then show ?thesis using eq by (simp add: assemble_context_def context_parts_def)
  qed
  show ?thesis using whole none bound by blast
qed



text \<open>
  The two separators at work: counting characters under a budget of 5, the check admits
  a third one-character item on the single-newline join of the first two (3 + 1), and
  the context returned joins the three by blank lines and has 7 characters.
\<close>

lemma context_join_mismatch_example:
  "context_parts char_count 5 [''a'', ''b'', ''c''] = [''a'', ''b'', ''c'']
   \<and> int (char_count (join nl [''a'', ''b''])) + int (char_count ''c'') = 4
   \<and> int (char_count (join (nl @ nl) [''a'', ''b''])) + int (char_count ''c'') = 5
   \<and> assemble_context char_count 5 [''a'', ''b'', ''c'']
       = ''a'' @ nl @ nl @ ''b'' @ nl @ nl @ ''c''
   \<and> char_count (assemble_context char_count 5 [''a'', ''b'', ''c'']) = 7"
  by (simp add: assemble_context_def context_parts_def char_count_def nl_def)

section \<open>The ask endpoint\<close>

lemma hybrid_search_requests:
  assumes "hybrid_search S eng es p q v k = (es', reqs, Inr rs)"
  shows "reqs = [hybrid_body p q v k] \<or> reqs = [hybrid_body p q v k, fallback_body p q v k]"
  using assms by (auto simp add: hybrid_search_def Let_def split: sum.splits)

lemma select_docs_length: "select_docs docs idx = Inr sel \<Longrightarrow> length sel = length idx"
  by (auto simp add: select_docs_def split: if_splits)

lemma sample_hybrid_any_k:
  "hybrid_search memora (simple_engine False) sample_store ''u1'' q [1, 0] k =
     (sample_store, [hybrid_body ''u1'' q [1, 0] k, fallback_body ''u1'' q [1, 0] k],
      Inr [\<lparr>res_text = ''Alice lives in Paris.'', res_score = 1\<rparr>,
           \<lparr>res_text = ''Alice likes tea.'', res_score = 0\<rparr>])"
proof -
  have "2 \<le> nat (max (k * 3) 15)" by simp
  then have "take (nat (max (k * 3) 15)) [a, b] = [a, b]" for a b :: raw_hit
    by simp
  then show ?thesis
    using sample_fallback_u1 [of q k]
    by (simp add: hybrid_search_def sample_store_ensured sample_primary_rejected Let_def
        extract_results_def to_result_def memora_index)
qed

lemma sample_ask_context:
  "ask_context memora sample_collaborators sample_store sample_request =
     Inr \<lparr>loc_store = sample_store, loc_q_vec = [1, 0],
          loc_docs = [''Alice lives in Paris.'', ''Alice likes tea.''],
          loc_selected_docs = [''Alice lives in Paris.'', ''Alice likes tea.''],
          loc_used = 2,
          loc_context_parts = [''Alice lives in Paris.''],
          loc_context = ''Alice lives in Paris.''\<rparr>"
proof -
  have c: "context_parts chars_div_4 7 [''Alice lives in Paris.'', ''Alice likes tea.'']
             = [''Alice lives in Paris.'']"
    by (simp add: context_parts_def chars_div_4_def nl_def)
  have t: "token_budget memora = 7" by (simp add: memora_def)
  show ?thesis
    by (simp add: ask_context_def sample_collaborators_def sample_request_def
        sample_embedding_def sample_hybrid_any_k Let_def sample_mmr_two select_docs_def c t)
qed

text \<open>
  What \<^verbatim>\<open>used_snippets\<close> is in every response: the length of \<^verbatim>\<open>selected_docs\<close>, taken before
  the budget loop runs, and so at least the number of items in the context.
\<close>

lemma ask_used_is_selection_count:
  assumes "ask S C es req = Inr r"
  shows "\<exists>L. ask_context S C es req = Inr L \<and> used_snippets r = length (loc_selected_docs L)
           \<and> length (loc_context_parts L) \<le> used_snippets r"
proof -
  from assms obtain L where L: "ask_context S C es req = Inr L"
    by (auto simp add: ask_def split: sum.splits)
  then have u: "used_snippets r = loc_used L"
    using assms by (auto simp add: ask_def Let_def split: sum.splits)
  have "loc_used L = length (loc_selected_docs L)
        \<and> loc_context_parts L
            = context_parts (approx_token_count C) (token_budget S) (loc_selected_docs L)"
    using L by (auto simp add: ask_context_def Let_def context_parts_def
        split: sum.splits prod.splits if_splits)
  then show ?thesis
    using L u context_parts_length [of "approx_token_count C" "token_budget S" "loc_selected_docs L"]
    by auto
qed

text \<open>
  Claim C7 at a concrete request. Two chunks are retrieved and selected; with a budget
  of 7 tokens the loop includes the first (5 tokens) and stops at the second (5 + 4), so
  the context holds one item, and the response reports \<^verbatim>\<open>used_snippets = 2\<close>.
\<close>

theorem ask_used_snippets_overcount:
  "(case ask memora sample_collaborators sample_store sample_request of
      Inl e \<Rightarrow> None
    | Inr r \<Rightarrow> Some (response r, used_snippets r)) = Some (''Alice lives in Paris.'', 2)
   \<and> (case ask_context memora sample_collaborators sample_store sample_request of
        Inl e \<Rightarrow> None
      | Inr L \<Rightarrow> Some (loc_selected_docs L, loc_context_parts L, loc_context L))
       = Some ([''Alice lives in Paris.'', ''Alice likes tea.''], [''Alice lives in Paris.''],
               ''Alice lives in Paris.'')"
  by (simp add: ask_def sample_ask_context Let_def)
     (simp add: sample_collaborators_def strip_def is_space_def)

text \<open>
  Claim C10. Whatever \<open>k\<close> the request asks for, \<^verbatim>\<open>ask\<close> calls \<^verbatim>\<open>hybrid_search\<close> with
  \<open>max(15, k)\<close>, so that the first request to the store is the fused request built for
  that value, and, the pool being non-empty, calls the reranker with
  \<open>min(10, pool size)\<close>; the selection handed to the budget loop is the reranker's
  choice from the pool and, the reranker returning at most as many indices as it is
  asked for, has at most 10 items.
\<close>

theorem ask_pool_and_selection_sizes:
  assumes "ask_context S C es req = Inr L"
    and "\<forall>q d v k. int (length (mmr_fn C q d v k)) \<le> max 0 k"
  shows "\<exists>q_vec es1 reqs hits.
           get_embedding C (req_query req) = Inr q_vec
         \<and> hybrid_search S (search_engine C) es (req_project_id req) (req_query req) q_vec
              (max 15 (req_k req)) = (es1, reqs, Inr hits)
         \<and> hd reqs = hybrid_body (req_project_id req) (req_query req) q_vec (max 15 (req_k req))
         \<and> loc_docs L = map res_text hits
         \<and> (loc_docs L = [] \<and> loc_selected_docs L = []
            \<or> (\<exists>doc_vecs. embed_all (get_embedding C) (loc_docs L) = Inr doc_vecs
                 \<and> select_docs (loc_docs L)
                      (mmr_fn C q_vec (loc_docs L) doc_vecs (min 10 (int (length (loc_docs L)))))
                    = Inr (loc_selected_docs L)))
         \<and> loc_context_parts L
             = context_parts (approx_token_count C) (token_budget S) (loc_selected_docs L)
         \<and> length (loc_selected_docs L) \<le> 10"
proof -
  from assms(1) obtain q_vec where q: "get_embedding C (req_query req) = Inr q_vec"
    by (auto simp add: ask_context_def split: sum.splits)
  let ?hs = "hybrid_search S (search_engine C) es (req_project_id req) (req_query req) q_vec
              (max 15 (req_k req))"
  from assms(1) q obtain es1 reqs hits where h: "?hs = (es1, reqs, Inr hits)"
    by (auto simp add: ask_context_def split: sum.splits prod.splits)
  have r: "hd reqs = hybrid_body (req_project_id req) (req_query req) q_vec (max 15 (req_k req))"
    using hybrid_search_requests [OF h] by auto
  let ?docs = "map res_text hits"
  show ?thesis
  proof (cases "?docs = []")
    case True
    then have "L = \<lparr>loc_store = es1, loc_q_vec = q_vec, loc_docs = ?docs,
                     loc_selected_docs = [], loc_used = 0, loc_context_parts = [],
                     loc_context = []\<rparr>"
      using assms(1) q h by (simp add: ask_context_def Let_def)
    then show ?thesis using q h r True by (simp add: context_parts_def)
  next
    case False
    let ?k = "min 10 (int (length ?docs))"
    from assms(1) q h False obtain doc_vecs where
      e: "embed_all (get_embedding C) ?docs = Inr doc_vecs"
      by (auto simp add: ask_context_def Let_def split: sum.splits)
    from assms(1) q h False e obtain sel where
      s: "select_docs ?docs (mmr_fn C q_vec ?docs doc_vecs ?k) = Inr sel"
      by (auto simp add: ask_context_def Let_def split: sum.splits)
    have L: "L = \<lparr>loc_store = es1, loc_q_vec = q_vec, loc_docs = ?docs,
                   loc_selected_docs = sel, loc_used = length sel,
                   loc_context_parts = context_parts (approx_token_count C) (token_budget S) sel,
                   loc_context = join (nl @ nl)
                     (context_parts (approx_token_count C) (token_budget S) sel)\<rparr>"
      using assms(1) q h False e s by (simp add: ask_context_def Let_def)
    have "int (length (mmr_fn C q_vec ?docs doc_vecs ?k)) \<le> max 0 ?k"
      using assms(2) by blast
    then have "length sel \<le> 10" using select_docs_length [OF s] by simp
    then show ?thesis using q h r e s L by auto
  qed
qed

theorem ask_pool_and_selection_sizes_witness:
  "ask_context memora sample_collaborators sample_store sample_request =
     Inr \<lparr>loc_store = sample_store, loc_q_vec = [1, 0],
          loc_docs = [''Alice lives in Paris.'', ''Alice likes tea.''],
          loc_selected_docs = [''Alice lives in Paris.'', ''Alice likes tea.''],
          loc_used = 2,
          loc_context_parts = [''Alice lives in Paris.''],
          loc_context = ''Alice lives in Paris.''\<rparr>
   \<and> (\<forall>q d v k. int (length (mmr_fn sample_collaborators q d v k)) \<le> max 0 k)
   \<and> get_embedding sample_collaborators (req_query sample_request) = Inr [1, 0]
   \<and> max 15 (req_k sample_request) = 15
   \<and> hybrid_search memora (search_engine sample_collaborators) sample_store ''u1''
        ''Where does Alice live?'' [1, 0] 15 =
       (sample_store,
        [hybrid_body ''u1'' ''Where does Alice live?'' [1, 0] 15,
         fallback_body ''u1'' ''Where does Alice live?'' [1, 0] 15],
        Inr [\<lparr>res_text = ''Alice lives in Paris.'', res_score = 1\<rparr>,
             \<lparr>res_text = ''Alice likes tea.'', res_score = 0\<rparr>])
   \<and> body_size (hybrid_body ''u1'' ''Where does Alice live?'' [1, 0] 15) = 45
   \<and> min 10 (int (length [''Alice lives in Paris.'', ''Alice likes tea.''])) = 2
   \<and> length [''Alice lives in Paris.'', ''Alice likes tea.''] \<le> 10"
proof -
  have b: "\<forall>q d v k. int (length (mmr_fn sample_collaborators q d v k)) \<le> max 0 k"
    by (simp add: sample_collaborators_def mmr_length_bound)
  show ?thesis
    using ask_pool_and_selection_sizes [OF sample_ask_context b] b sample_ask_context
      sample_hybrid_any_k [of "''Where does Alice live?''" 15]
    by (simp add: sample_collaborators_def sample_request_def sample_embedding_def hybrid_body_def)
qed

end
